theory Spec2Isabelle
  imports Main
begin

section \<open>Accessibility tree: data model\<close>

text \<open>
  The TypeScript interface \<open>AccessibilityNode\<close> has twenty-six optional attributes and an
  optional array of child nodes. Every optional attribute is an \<open>option\<close>; the attributes
  live in the record \<open>NodeAttrs\<close> and the tree structure in the datatype
  \<open>AccessibilityNode\<close> (a record cannot be recursive). The attribute \<open>value\<close> of the
  source is the field \<open>value'\<close> here.

  A JavaScript number is modelled as an integer: the code only tests a number for
  truthiness and renders it inside a template string, and an integer \<open>n\<close> is rendered in
  decimal. Fractional numbers, NaN and integers of more than twenty-one digits are outside
  the model.
\<close>

datatype str_or_num = VString string | VNumber int

datatype bool_or_mixed = B bool | Mixed

record NodeAttrs =
  role :: "string option"
  name :: "string option"
  value' :: "str_or_num option"
  description :: "string option"
  keyshortcuts :: "string option"
  roledescription :: "string option"
  valuetext :: "string option"
  disabled :: "bool option"
  expanded :: "bool option"
  focused :: "bool option"
  modal :: "bool option"
  multiline :: "bool option"
  multiselectable :: "bool option"
  readonly :: "bool option"
  required :: "bool option"
  selected :: "bool option"
  checked :: "bool_or_mixed option"
  pressed :: "bool_or_mixed option"
  level :: "int option"
  valuemin :: "int option"
  valuemax :: "int option"
  autocomplete :: "string option"
  haspopup :: "string option"
  invalid :: "string option"
  orientation :: "string option"
  uid :: "string option"

datatype AccessibilityNode =
  Node (attrs: NodeAttrs) (children: "AccessibilityNode list option")

text \<open>The node with no attribute at all, \<open>{}\<close> in the source.\<close>

definition no_attrs :: NodeAttrs where
  "no_attrs =
     \<lparr>role = None, name = None, value' = None, description = None, keyshortcuts = None,
      roledescription = None, valuetext = None, disabled = None, expanded = None,
      focused = None, modal = None, multiline = None, multiselectable = None,
      readonly = None, required = None, selected = None, checked = None, pressed = None,
      level = None, valuemin = None, valuemax = None, autocomplete = None, haspopup = None,
      invalid = None, orientation = None, uid = None\<rparr>"

subsection \<open>JavaScript truthiness and string conversion\<close>

text \<open>
  \<open>if (x)\<close> on an optional string holds when the string is present and not empty; on an
  optional boolean when it is present and true; on a string-or-number when it is a
  non-empty string or a number other than zero.
\<close>

fun truthy_str :: "string option \<Rightarrow> bool" where
  "truthy_str None = False"
| "truthy_str (Some s) = (s \<noteq> [])"

fun truthy_bool :: "bool option \<Rightarrow> bool" where
  "truthy_bool None = False"
| "truthy_bool (Some b) = b"

fun truthy_value :: "str_or_num option \<Rightarrow> bool" where
  "truthy_value None = False"
| "truthy_value (Some (VString s)) = (s \<noteq> [])"
| "truthy_value (Some (VNumber n)) = (n \<noteq> 0)"

definition digit :: "nat \<Rightarrow> char" where
  "digit d = ''0123456789'' ! d"

fun show_nat :: "nat \<Rightarrow> string" where
  "show_nat n = (if n < 10 then [digit n] else show_nat (n div 10) @ [digit (n mod 10)])"

declare show_nat.simps [simp del]

definition show_int :: "int \<Rightarrow> string" where
  "show_int i = (if i < 0 then CHR ''-'' # show_nat (nat (- i)) else show_nat (nat i))"

fun show_value :: "str_or_num \<Rightarrow> string" where
  "show_value (VString s) = s"
| "show_value (VNumber n) = show_int n"

text \<open>\<open>Array.prototype.join\<close> and \<open>String.prototype.repeat\<close>.\<close>

fun join :: "string \<Rightarrow> string list \<Rightarrow> string" where
  "join sep [] = []"
| "join sep [x] = x"
| "join sep (x # y # ys) = x @ sep @ join sep (y # ys)"

definition repeat :: "string \<Rightarrow> nat \<Rightarrow> string" where
  "repeat s n = concat (replicate n s)"

section \<open>Tree Annotator: \<open>assignUIDs\<close>\<close>

definition interactiveRoles :: "string list" where
  "interactiveRoles =
     [''button'', ''link'', ''textbox'', ''searchbox'', ''checkbox'', ''radio'',
      ''combobox'', ''listbox'', ''option'', ''menuitem'', ''tab'', ''switch'',
      ''slider'', ''spinbutton'']"

text \<open>
  The source mutates the node and the counter object in place; the model returns the
  annotated tree together with the counter's new value. \<open>assignUIDs_forEach\<close> is the
  \<open>children.forEach\<close> loop, which runs whenever \<open>children\<close> is present (an empty array
  is truthy).
\<close>

fun assignUIDs :: "AccessibilityNode \<Rightarrow> bool \<Rightarrow> nat \<Rightarrow> AccessibilityNode \<times> nat"
  and assignUIDs_forEach :: "AccessibilityNode list \<Rightarrow> bool \<Rightarrow> nat \<Rightarrow> AccessibilityNode list \<times> nat"
where
  "assignUIDs (Node a cs) verbose counter =
     (let (a1, counter1) =
            (if truthy_str (role a) \<and> (the (role a) \<in> set interactiveRoles \<or> verbose)
             then (a\<lparr>uid := Some (''uid_'' @ show_nat (counter + 1))\<rparr>, counter + 1)
             else (a, counter));
          a2 = (if \<not> verbose
                then a1\<lparr>description := None, keyshortcuts := None, roledescription := None,
                        valuetext := None, autocomplete := None, haspopup := None,
                        invalid := None, orientation := None\<rparr>
                else a1)
      in case cs of
           None \<Rightarrow> (Node a2 None, counter1)
         | Some ch \<Rightarrow>
             (let (ch', counter2) = assignUIDs_forEach ch verbose counter1
              in (Node a2 (Some ch'), counter2)))"
| "assignUIDs_forEach [] verbose counter = ([], counter)"
| "assignUIDs_forEach (child # rest) verbose counter =
     (let (child', counter1) = assignUIDs child verbose counter;
          (rest', counter2) = assignUIDs_forEach rest verbose counter1
      in (child' # rest', counter2))"

section \<open>Tree Formatter: \<open>formatSnapshot\<close>\<close>

definition dquote :: string where
  "dquote = [CHR 0x22]"

definition newline :: string where
  "newline = [CHR 0x0A]"

text \<open>The \<open>states\<close> array of the source, one conditional \<open>push\<close> per line.\<close>

definition node_states :: "NodeAttrs \<Rightarrow> string list" where
  "node_states a =
     (let states = [];
          states = (if truthy_bool (disabled a) then states @ [''disabled''] else states);
          states = (if checked a = Some (B True) then states @ [''checked''] else states);
          states = (if checked a = Some Mixed then states @ [''mixed''] else states);
          states = (if expanded a = Some True then states @ [''expanded''] else states);
          states = (if expanded a = Some False then states @ [''collapsed''] else states);
          states = (if truthy_bool (selected a) then states @ [''selected''] else states);
          states = (if truthy_bool (focused a) then states @ [''focused''] else states);
          states = (if truthy_bool (required a) then states @ [''required''] else states);
          states = (if truthy_bool (readonly a) then states @ [''readonly''] else states)
      in states)"

text \<open>The \<open>parts\<close> array of the source.\<close>

definition node_parts :: "NodeAttrs \<Rightarrow> string list" where
  "node_parts a =
     (let parts = [];
          parts = (if truthy_str (uid a) then parts @ [''['' @ the (uid a) @ '']''] else parts);
          parts = (if truthy_str (role a) then parts @ [the (role a)] else parts);
          parts = (if truthy_str (name a)
                   then parts @ [dquote @ the (name a) @ dquote] else parts);
          parts = (if truthy_value (value' a)
                   then parts @ [''value='' @ dquote @ show_value (the (value' a)) @ dquote]
                   else parts);
          states = node_states a;
          parts = (if length states > 0
                   then parts @ [''('' @ join '', '' states @ '')''] else parts)
      in parts)"

fun formatSnapshot :: "AccessibilityNode \<Rightarrow> nat \<Rightarrow> string"
  and formatSnapshot_forEach :: "AccessibilityNode list \<Rightarrow> nat \<Rightarrow> string \<Rightarrow> string"
where
  "formatSnapshot (Node a cs) depth =
     (let indent = repeat ''  '' depth;
          result = [];
          parts = node_parts a;
          result = (if length parts > 0
                    then result @ indent @ join '' '' parts @ newline else result)
      in case cs of
           None \<Rightarrow> result
         | Some ch \<Rightarrow>
             if length ch > 0 then formatSnapshot_forEach ch depth result else result)"
| "formatSnapshot_forEach [] depth result = result"
| "formatSnapshot_forEach (child # rest) depth result =
     formatSnapshot_forEach rest depth (result @ formatSnapshot child (depth + 1))"

section \<open>External collaborators\<close>

text \<open>
  The browser-automation library, the URL parser and the schema library are not part of
  the repository. Their answers during one tool call are the fields of the record
  \<open>env\<close>, and every call the code makes to the browser is recorded as an \<open>event\<close>, in
  order. The diagnostic lines written with \<open>console.error\<close> are left out.

  A thrown JavaScript value is \<open>Error m\<close> (an \<open>Error\<close> with message \<open>m\<close> that is not a
  \<open>TypeError\<close>), \<open>TypeError m\<close>, or \<open>NonError s\<close> (any value that is not an instance of
  \<open>Error\<close>, with \<open>s\<close> what \<open>String\<close> makes of it).
\<close>

datatype thrown = Error string | TypeError string | NonError string

datatype json =
  JNull | JBool bool | JNumber int | JString string | JArray "json list"
  | JObject "(string \<times> json) list"

type_synonym Browser = nat
type_synonym Page = nat

datatype event =
  Launch bool
  | NewPage Browser
  | BrowserClose Browser
  | PageGoto Page string nat
  | AccessibilitySnapshot Page "thrown + AccessibilityNode option"
  | PageEvaluate Page string

datatype zod_issue = Required string | InvalidType string | InvalidUrl string

record env =
  firefox_launch :: "thrown + Browser"
  browser_newPage :: "thrown + Page"
  url_protocol :: "string \<Rightarrow> string option"
  page_goto :: "string \<Rightarrow> nat \<Rightarrow> thrown option"
  accessibility_snapshot :: "thrown + AccessibilityNode option"
  page_evaluate :: "string \<Rightarrow> thrown + json option"
  JSON_stringify :: "json option \<Rightarrow> string"
  zod_url :: "string \<Rightarrow> bool"
  zod_message :: "zod_issue list \<Rightarrow> string"

text \<open>
  \<open>url_protocol\<close> is \<open>new URL(url).protocol\<close>, \<open>None\<close> when the constructor throws its
  \<open>TypeError\<close>; \<open>page_goto\<close> is what \<open>page.goto\<close> throws, \<open>None\<close> when it returns;
  \<open>accessibility_snapshot\<close> is the answer of \<open>page.accessibility.snapshot()\<close>
  (\<open>Inr None\<close> when the page exposes no tree);
  \<open>zod_url\<close> is the check behind \<open>z.string().url()\<close> and \<open>zod_message\<close> the message of
  the \<open>ZodError\<close> thrown by \<open>parse\<close>.
\<close>

fun instanceof_Error :: "thrown \<Rightarrow> bool" where
  "instanceof_Error (Error m) = True"
| "instanceof_Error (TypeError m) = True"
| "instanceof_Error (NonError s) = False"

fun message :: "thrown \<Rightarrow> string" where
  "message (Error m) = m"
| "message (TypeError m) = m"
| "message (NonError s) = s"

text \<open>\<open>String.prototype.includes\<close>.\<close>

fun str_includes :: "string \<Rightarrow> string \<Rightarrow> bool" where
  "str_includes [] sub = (sub = [])"
| "str_includes (c # s) sub = (take (length sub) (c # s) = sub \<or> str_includes s sub)"

section \<open>Browser: \<open>FirefoxBrowser\<close>\<close>

definition DEFAULT_NAVIGATION_TIMEOUT :: nat where
  "DEFAULT_NAVIGATION_TIMEOUT = 30000"

record FirefoxBrowser =
  browser :: "Browser option"
  page :: "Page option"
  headless :: bool
  connecting :: bool

definition isConnected :: "FirefoxBrowser \<Rightarrow> bool" where
  "isConnected b = (page b \<noteq> None)"

definition getPage :: "FirefoxBrowser \<Rightarrow> thrown + Page" where
  "getPage b =
     (case page b of
        None \<Rightarrow> Inl (Error ''Firefox not connected. Call connect() first.'')
      | Some p \<Rightarrow> Inr p)"

text \<open>
  \<open>connect\<close> for a call that runs alone. When \<open>connecting\<close> is set at entry the source
  polls until another call clears the flag; alone, that loop does not end, which is the
  value \<open>None\<close>. Otherwise the result is what \<open>connect\<close> returns or throws, the new
  browser state and the events.
\<close>

definition connect ::
  "env \<Rightarrow> FirefoxBrowser \<Rightarrow> ((thrown + Page) \<times> FirefoxBrowser \<times> event list) option" where
  "connect e b =
     (case page b of
        Some p \<Rightarrow> Some (Inr p, b, [])
      | None \<Rightarrow>
          if connecting b then None
          else
            (let b1 = b\<lparr>connecting := True\<rparr> in
             case firefox_launch e of
               Inl err \<Rightarrow>
                 (case browser b1 of
                    Some br \<Rightarrow>
                      Some (Inl err, b1\<lparr>browser := None, connecting := False\<rparr>,
                            [Launch (headless b1), BrowserClose br])
                  | None \<Rightarrow>
                      Some (Inl err, b1\<lparr>connecting := False\<rparr>, [Launch (headless b1)]))
             | Inr br \<Rightarrow>
                 (let b2 = b1\<lparr>browser := Some br\<rparr> in
                  case browser_newPage e of
                    Inl err \<Rightarrow>
                      Some (Inl err, b2\<lparr>browser := None, connecting := False\<rparr>,
                            [Launch (headless b1), NewPage br, BrowserClose br])
                  | Inr p \<Rightarrow>
                      Some (Inr p, b2\<lparr>page := Some p, connecting := False\<rparr>,
                            [Launch (headless b1), NewPage br]))))"

text \<open>
  \<open>goto\<close>: the result (\<open>Inl\<close> what is thrown, \<open>Inr ()\<close> on return) and the events. The
  first \<open>try\<close> block either passes, throws the invalid-protocol \<open>Error\<close> (rethrown by its
  \<open>catch\<close>, as it is no \<open>TypeError\<close>) or turns the parser's \<open>TypeError\<close> into the
  invalid-format \<open>Error\<close>.
\<close>

definition goto ::
  "env \<Rightarrow> FirefoxBrowser \<Rightarrow> string \<Rightarrow> nat \<Rightarrow> (thrown + unit) \<times> event list" where
  "goto e b url timeout =
     (case getPage b of
        Inl err \<Rightarrow> (Inl err, [])
      | Inr pg \<Rightarrow>
          (case url_protocol e url of
             None \<Rightarrow> (Inl (Error (''Invalid URL format: '' @ url)), [])
           | Some protocol \<Rightarrow>
               if protocol \<notin> set [''http:'', ''https:'']
               then (Inl (Error (''Invalid protocol: '' @ protocol
                                  @ ''. Only HTTP and HTTPS are supported.'')), [])
               else
                 (case page_goto e url timeout of
                    None \<Rightarrow> (Inr (), [PageGoto pg url timeout])
                  | Some err \<Rightarrow>
                      (if instanceof_Error err
                       then
                         (if str_includes (message err) ''Timeout''
                          then Inl (Error (''Navigation timeout after '' @ show_nat timeout
                                           @ ''ms for '' @ url))
                          else if str_includes (message err) ''net::''
                          then Inl (Error (''Network error navigating to '' @ url @ '': ''
                                           @ message err))
                          else Inl (Error (''Failed to navigate to '' @ url @ '': ''
                                           @ message err)))
                       else Inl err,
                       [PageGoto pg url timeout]))))"

section \<open>Tool schemas\<close>

text \<open>
  The argument object of a tool call is an association list from keys to JSON values. The
  schema library's checks are modelled as its documentation gives them:
  \<open>z.string()\<close> accepts every string, \<open>z.string().url()\<close> the strings \<open>zod_url\<close>
  accepts, \<open>z.boolean()\<close> the two booleans, \<open>.optional()\<close> also a missing key, and
  \<open>z.object\<close> collects the issues of its fields and drops unknown keys.
\<close>

record TakeSnapshotArgs =
  url :: "string option"
  verbose :: "bool option"

record EvaluateScriptArgs =
  script :: string
  url :: "string option"

fun z_string :: "string \<Rightarrow> json option \<Rightarrow> zod_issue list + string" where
  "z_string key None = Inl [Required key]"
| "z_string key (Some (JString s)) = Inr s"
| "z_string key (Some v) = Inl [InvalidType key]"

fun z_string_url :: "env \<Rightarrow> string \<Rightarrow> json option \<Rightarrow> zod_issue list + string" where
  "z_string_url e key None = Inl [Required key]"
| "z_string_url e key (Some (JString s)) = (if zod_url e s then Inr s else Inl [InvalidUrl key])"
| "z_string_url e key (Some v) = Inl [InvalidType key]"

fun z_boolean :: "string \<Rightarrow> json option \<Rightarrow> zod_issue list + bool" where
  "z_boolean key None = Inl [Required key]"
| "z_boolean key (Some (JBool b)) = Inr b"
| "z_boolean key (Some v) = Inl [InvalidType key]"

fun z_optional ::
  "(json option \<Rightarrow> zod_issue list + 'a) \<Rightarrow> json option \<Rightarrow> zod_issue list + 'a option" where
  "z_optional p None = Inr None"
| "z_optional p (Some v) = (case p (Some v) of Inl is \<Rightarrow> Inl is | Inr x \<Rightarrow> Inr (Some x))"

fun issues :: "zod_issue list + 'a \<Rightarrow> zod_issue list" where
  "issues (Inl is) = is"
| "issues (Inr x) = []"

definition takeSnapshotSchema_parse ::
  "env \<Rightarrow> (string \<times> json) list \<Rightarrow> zod_issue list + TakeSnapshotArgs" where
  "takeSnapshotSchema_parse e args =
     (case (z_optional (z_string_url e ''url'') (map_of args ''url''),
            z_optional (z_boolean ''verbose'') (map_of args ''verbose'')) of
        (Inr u, Inr v) \<Rightarrow> Inr \<lparr>TakeSnapshotArgs.url = u, verbose = v\<rparr>
      | (ru, rv) \<Rightarrow> Inl (issues ru @ issues rv))"

definition evaluateScriptSchema_parse ::
  "env \<Rightarrow> (string \<times> json) list \<Rightarrow> zod_issue list + EvaluateScriptArgs" where
  "evaluateScriptSchema_parse e args =
     (case (z_string ''script'' (map_of args ''script''),
            z_optional (z_string_url e ''url'') (map_of args ''url'')) of
        (Inr s, Inr u) \<Rightarrow> Inr \<lparr>script = s, EvaluateScriptArgs.url = u\<rparr>
      | (rs, ru) \<Rightarrow> Inl (issues rs @ issues ru))"

section \<open>Snapshot Orchestrator: \<open>takeSnapshot\<close>\<close>

definition takeSnapshot ::
  "env \<Rightarrow> Page \<Rightarrow> FirefoxBrowser \<Rightarrow> TakeSnapshotArgs \<Rightarrow> (thrown + string) \<times> event list" where
  "takeSnapshot e pg b args =
     (case (if truthy_str (TakeSnapshotArgs.url args)
            then goto e b (the (TakeSnapshotArgs.url args)) DEFAULT_NAVIGATION_TIMEOUT
            else (Inr (), [])) of
        (Inl err, evs) \<Rightarrow> (Inl err, evs)
      | (Inr u, evs) \<Rightarrow>
          (let uidCounter = 0;
               evs1 = evs @ [AccessibilitySnapshot pg (accessibility_snapshot e)]
           in case accessibility_snapshot e of
                Inl err \<Rightarrow> (Inl err, evs1)
              | Inr None \<Rightarrow> (Inr ''No accessibility tree available for this page.'', evs1)
              | Inr (Some snapshot) \<Rightarrow>
                  (let (snapshot1, uidCounter1) =
                         assignUIDs snapshot (truthy_bool (verbose args)) uidCounter;
                       formattedText = formatSnapshot snapshot1 0;
                       summary = ''Accessibility Snapshot ('' @ show_nat uidCounter1
                                 @ '' interactive elements)'' @ newline;
                       separator = repeat ''='' 60 @ newline
                   in (Inr (summary @ separator @ formattedText), evs1))))"

section \<open>Script Evaluator: \<open>evaluateScript\<close>\<close>

definition evaluateScript ::
  "env \<Rightarrow> Page \<Rightarrow> FirefoxBrowser \<Rightarrow> EvaluateScriptArgs \<Rightarrow> (thrown + string) \<times> event list" where
  "evaluateScript e pg b args =
     (case (if truthy_str (EvaluateScriptArgs.url args)
            then goto e b (the (EvaluateScriptArgs.url args)) DEFAULT_NAVIGATION_TIMEOUT
            else (Inr (), [])) of
        (Inl err, evs) \<Rightarrow> (Inl err, evs)
      | (Inr u, evs) \<Rightarrow>
          (let evs1 = evs @ [PageEvaluate pg (script args)]
           in case page_evaluate e (script args) of
                Inl err \<Rightarrow> (Inl err, evs1)
              | Inr result \<Rightarrow>
                  (let serialized = JSON_stringify e result
                   in (Inr (''Script executed successfully:'' @ newline @ newline @ serialized),
                       evs1))))"

section \<open>Server: the handler of a tool call\<close>

record response =
  content_text :: string
  isError :: bool

definition ensureConnected ::
  "env \<Rightarrow> FirefoxBrowser \<Rightarrow> ((thrown + unit) \<times> FirefoxBrowser \<times> event list) option" where
  "ensureConnected e b =
     (if \<not> isConnected b
      then (case connect e b of
              None \<Rightarrow> None
            | Some (Inl err, b', evs) \<Rightarrow> Some (Inl err, b', evs)
            | Some (Inr p, b', evs) \<Rightarrow> Some (Inr (), b', evs))
      else Some (Inr (), b, []))"

text \<open>\<open>args || {}\<close>: the empty object when the request carries no arguments.\<close>

definition or_empty :: "(string \<times> json) list option \<Rightarrow> (string \<times> json) list" where
  "or_empty args = (case args of None \<Rightarrow> [] | Some a \<Rightarrow> a)"

text \<open>The \<open>switch\<close> on the tool's name.\<close>

definition dispatch ::
  "env \<Rightarrow> Page \<Rightarrow> FirefoxBrowser \<Rightarrow> string \<Rightarrow> (string \<times> json) list option
     \<Rightarrow> (thrown + string) \<times> event list" where
  "dispatch e pg b tool args =
     (if tool = ''take_snapshot''
      then (case takeSnapshotSchema_parse e (or_empty args) of
              Inl is \<Rightarrow> (Inl (Error (zod_message e is)), [])
            | Inr validatedArgs \<Rightarrow> takeSnapshot e pg b validatedArgs)
      else if tool = ''evaluate_script''
      then (case evaluateScriptSchema_parse e (or_empty args) of
              Inl is \<Rightarrow> (Inl (Error (zod_message e is)), [])
            | Inr validatedArgs \<Rightarrow> evaluateScript e pg b validatedArgs)
      else (Inl (Error (''Unknown tool: '' @ tool)), []))"

definition error_response :: "thrown \<Rightarrow> response" where
  "error_response err = \<lparr>content_text = ''Error: '' @ message err, isError = True\<rparr>"

definition callTool ::
  "env \<Rightarrow> FirefoxBrowser \<Rightarrow> string \<Rightarrow> (string \<times> json) list option
     \<Rightarrow> (response \<times> FirefoxBrowser \<times> event list) option" where
  "callTool e b tool args =
     (case ensureConnected e b of
        None \<Rightarrow> None
      | Some (Inl err, b', evs) \<Rightarrow> Some (error_response err, b', evs)
      | Some (Inr u, b', evs) \<Rightarrow>
          (case getPage b' of
             Inl err \<Rightarrow> Some (error_response err, b', evs)
           | Inr pg \<Rightarrow>
               (case dispatch e pg b' tool args of
                  (Inl err, evs') \<Rightarrow> Some (error_response err, b', evs @ evs')
                | (Inr result, evs') \<Rightarrow>
                    Some (\<lparr>content_text = result, isError = False\<rparr>, b', evs @ evs'))))"

section \<open>Notions of the specification\<close>

subsection \<open>UID eligibility, pre-order, numbering\<close>

text \<open>
  The eligibility rule in the specification's words: the role is non-empty, and it belongs to
  the fixed interactive-role set or \<open>verbose\<close> is true.
\<close>

definition interactive_role_set :: "string set" where
  "interactive_role_set =
     {''button'', ''link'', ''textbox'', ''searchbox'', ''checkbox'', ''radio'',
      ''combobox'', ''listbox'', ''option'', ''menuitem'', ''tab'', ''switch'',
      ''slider'', ''spinbutton''}"

definition uid_eligible :: "bool \<Rightarrow> NodeAttrs \<Rightarrow> bool" where
  "uid_eligible v a =
     (case role a of
        None \<Rightarrow> False
      | Some r \<Rightarrow> r \<noteq> [] \<and> (r \<in> interactive_role_set \<or> v))"

text \<open>
  The nodes of a tree in pre-order: a node before its children, the children in their
  original order. Two trees of the same shape list corresponding nodes at the same index.
\<close>

fun preorder :: "AccessibilityNode \<Rightarrow> NodeAttrs list"
  and preorder_list :: "AccessibilityNode list \<Rightarrow> NodeAttrs list"
where
  "preorder (Node a None) = [a]"
| "preorder (Node a (Some ch)) = a # preorder_list ch"
| "preorder_list [] = []"
| "preorder_list (c # cs) = preorder c @ preorder_list cs"

definition uid_of :: "nat \<Rightarrow> string" where
  "uid_of n = ''uid_'' @ show_nat n"

definition eligible_count :: "bool \<Rightarrow> NodeAttrs list \<Rightarrow> nat" where
  "eligible_count v as = length (filter (uid_eligible v) as)"

text \<open>The eight verbose-only attributes, removed.\<close>

definition delete_verbose_fields :: "NodeAttrs \<Rightarrow> NodeAttrs" where
  "delete_verbose_fields a =
     a\<lparr>description := None, keyshortcuts := None, roledescription := None,
       valuetext := None, autocomplete := None, haspopup := None, invalid := None,
       orientation := None\<rparr>"

text \<open>
  \<open>map_attrs f\<close> applies \<open>f\<close> to the attributes of every node and keeps the tree's shape;
  \<open>erase_uid\<close> forgets the \<open>uid\<close>; \<open>uid_positions\<close> are the pre-order indices of
  the nodes that carry a \<open>uid\<close>.
\<close>

fun map_attrs :: "(NodeAttrs \<Rightarrow> NodeAttrs) \<Rightarrow> AccessibilityNode \<Rightarrow> AccessibilityNode"
  and map_attrs_list :: "(NodeAttrs \<Rightarrow> NodeAttrs) \<Rightarrow> AccessibilityNode list \<Rightarrow> AccessibilityNode list"
where
  "map_attrs f (Node a None) = Node (f a) None"
| "map_attrs f (Node a (Some ch)) = Node (f a) (Some (map_attrs_list f ch))"
| "map_attrs_list f [] = []"
| "map_attrs_list f (c # cs) = map_attrs f c # map_attrs_list f cs"

definition erase_uid :: "NodeAttrs \<Rightarrow> NodeAttrs" where
  "erase_uid a = a\<lparr>uid := None\<rparr>"

definition uid_positions :: "AccessibilityNode \<Rightarrow> nat list" where
  "uid_positions t = filter (\<lambda>i. uid (preorder t ! i) \<noteq> None) [0..<length (preorder t)]"

subsection \<open>Formatter: depth, optional parts, skipped nodes\<close>

text \<open>
  The nodes of a tree in pre-order, each with its depth in the tree: the root has the depth
  the formatter starts from, a child is one deeper than its parent.
\<close>

fun preorder_depth :: "AccessibilityNode \<Rightarrow> nat \<Rightarrow> (NodeAttrs \<times> nat) list"
  and preorder_depth_list :: "AccessibilityNode list \<Rightarrow> nat \<Rightarrow> (NodeAttrs \<times> nat) list"
where
  "preorder_depth (Node a None) d = [(a, d)]"
| "preorder_depth (Node a (Some ch)) d = (a, d) # preorder_depth_list ch (d + 1)"
| "preorder_depth_list [] d = []"
| "preorder_depth_list (c # cs) d = preorder_depth c d @ preorder_depth_list cs d"

text \<open>A part of a line that is there or not.\<close>

definition part :: "bool \<Rightarrow> string \<Rightarrow> string list" where
  "part present s = (if present then [s] else [])"

text \<open>The seven attributes that the formatter never reads, removed.\<close>

definition clear_unrendered :: "NodeAttrs \<Rightarrow> NodeAttrs" where
  "clear_unrendered a =
     a\<lparr>pressed := None, modal := None, multiline := None, multiselectable := None,
       level := None, valuemin := None, valuemax := None\<rparr>"

text \<open>
  A node with nothing to render: no \<open>uid\<close>, \<open>role\<close>, \<open>name\<close> or \<open>value\<close>, the flags
  \<open>disabled\<close>, \<open>checked\<close>, \<open>selected\<close>, \<open>focused\<close>, \<open>required\<close> and \<open>readonly\<close> absent
  or false, and \<open>expanded\<close> absent.
\<close>

definition no_renderable_attribute :: "NodeAttrs \<Rightarrow> bool" where
  "no_renderable_attribute a =
     (uid a = None \<and> role a = None \<and> name a = None \<and> value' a = None
      \<and> disabled a \<noteq> Some True \<and> checked a \<noteq> Some (B True) \<and> checked a \<noteq> Some Mixed
      \<and> expanded a = None \<and> selected a \<noteq> Some True \<and> focused a \<noteq> Some True
      \<and> required a \<noteq> Some True \<and> readonly a \<noteq> Some True)"

subsection \<open>Navigation failures and page events\<close>

text \<open>
  The events by which a tool handler touches the page, and the five messages of a failed
  navigation.
\<close>

fun page_event :: "event \<Rightarrow> bool" where
  "page_event (PageGoto p u t) = True"
| "page_event (AccessibilitySnapshot p r) = True"
| "page_event (PageEvaluate p s) = True"
| "page_event ev = False"






text \<open>The two header lines of a snapshot with \<open>k\<close> assigned identifiers.\<close>

definition snapshot_header :: "nat \<Rightarrow> string" where
  "snapshot_header k =
     ''Accessibility Snapshot ('' @ show_nat k @ '' interactive elements)'' @ newline
     @ replicate 60 (CHR ''='') @ newline"

subsection \<open>Auxiliary functions of the proofs\<close>

text \<open>
  What \<open>assignUIDs\<close> makes of one node's attributes when the counter is \<open>c\<close>; the \<open>uid\<close>
  fields along a pre-order list when numbering starts after \<open>c\<close>; and a reader of decimal
  numerals, the inverse of \<open>show_nat\<close>.
\<close>

definition annotated :: "bool \<Rightarrow> nat \<Rightarrow> NodeAttrs \<Rightarrow> NodeAttrs" where
  "annotated v c a =
     (let a1 = (if uid_eligible v a then a\<lparr>uid := Some (uid_of (c + 1))\<rparr> else a)
      in if v then a1 else delete_verbose_fields a1)"

fun numbered :: "bool \<Rightarrow> nat \<Rightarrow> NodeAttrs list \<Rightarrow> string option list" where
  "numbered v c [] = []"
| "numbered v c (a # as) =
     (if uid_eligible v a then Some (uid_of (c + 1)) # numbered v (c + 1) as
      else uid a # numbered v c as)"

definition digit_value :: "char \<Rightarrow> nat" where
  "digit_value c = length (takeWhile (\<lambda>d. d \<noteq> c) ''0123456789'')"

definition read_nat :: "string \<Rightarrow> nat" where
  "read_nat s = foldl (\<lambda>acc c. 10 * acc + digit_value c) 0 s"

subsection \<open>Example inputs\<close>

text \<open>
  A root with two children, a heading and a disabled button (scenario 2 of the
  specification).
\<close>

definition example_tree :: AccessibilityNode where
  "example_tree =
     Node (no_attrs\<lparr>role := Some ''main''\<rparr>)
       (Some [Node (no_attrs\<lparr>role := Some ''heading'', name := Some ''Title''\<rparr>) None,
              Node (no_attrs\<lparr>role := Some ''button'', name := Some ''Sign in'',
                             disabled := Some True\<rparr>) None])"

definition example_button :: NodeAttrs where
  "example_button =
     no_attrs\<lparr>role := Some ''button'', name := Some ''Sign in'', value' := Some (VNumber 5),
              disabled := Some True, focused := Some True, uid := Some ''uid_1''\<rparr>"

definition collapsed_attrs :: NodeAttrs where
  "collapsed_attrs = no_attrs\<lparr>expanded := Some False\<rparr>"

definition bare_uid_attrs :: NodeAttrs where
  "bare_uid_attrs = no_attrs\<lparr>uid := Some ''uid_1''\<rparr>"

definition pressed_heading :: NodeAttrs where
  "pressed_heading =
     no_attrs\<lparr>role := Some ''heading'', name := Some ''Title'', pressed := Some Mixed,
              level := Some 2\<rparr>"

definition skipped_root_tree :: AccessibilityNode where
  "skipped_root_tree =
     Node (no_attrs\<lparr>expanded := None, pressed := Some (B False), disabled := Some False\<rparr>)
       (Some [Node pressed_heading (Some [Node example_button None]),
              Node example_button None])"

text \<open>
  An environment in which the browser launches, \<open>https://example.com\<close> loads, the page
  exposes \<open>example_tree\<close> and the script \<open>1+1\<close> evaluates to \<open>2\<close>; the same environment
  with a page that exposes no tree; a connected browser and one that was never connected.
\<close>

definition example_env :: env where
  "example_env =
     \<lparr>firefox_launch = Inr 1,
      browser_newPage = Inr 1,
      url_protocol = (\<lambda>u. if u = ''ftp://example.com'' then Some ''ftp:''
                           else if u = ''https://example.com'' then Some ''https:'' else None),
      page_goto = (\<lambda>u t. None),
      accessibility_snapshot = Inr (Some example_tree),
      page_evaluate = (\<lambda>s. if s = ''1+1'' then Inr (Some (JNumber 2)) else Inr None),
      JSON_stringify = (\<lambda>r. case r of Some (JNumber n) \<Rightarrow> show_int n | _ \<Rightarrow> ''undefined''),
      zod_url = (\<lambda>u. u = ''ftp://example.com'' \<or> u = ''https://example.com''),
      zod_message = (\<lambda>is. ''Invalid arguments'')\<rparr>"

definition connected_browser :: FirefoxBrowser where
  "connected_browser = \<lparr>browser = Some 1, page = Some 1, headless = True, connecting = False\<rparr>"

definition fresh_browser :: FirefoxBrowser where
  "fresh_browser = \<lparr>browser = None, page = None, headless = True, connecting = False\<rparr>"

definition no_tree_env :: env where
  "no_tree_env = example_env\<lparr>accessibility_snapshot := Inr None\<rparr>"

definition no_args :: TakeSnapshotArgs where
  "no_args = \<lparr>TakeSnapshotArgs.url = None, verbose = None\<rparr>"

section \<open>The annotator\<close>

subsection \<open>Unfolded equations\<close>

lemma eligible_code:
  "(truthy_str (role a) \<and> (the (role a) \<in> set interactiveRoles \<or> v)) = uid_eligible v a"
  by (cases "role a") (auto simp: uid_eligible_def interactiveRoles_def interactive_role_set_def)

lemma assignUIDs_leaf:
  "assignUIDs (Node a None) v c = (Node (annotated v c a) None, c + eligible_count v [a])"
  by (simp add: eligible_code annotated_def delete_verbose_fields_def uid_of_def eligible_count_def)

lemma assignUIDs_inner:
  "assignUIDs (Node a (Some ch)) v c =
     (Node (annotated v c a) (Some (fst (assignUIDs_forEach ch v (c + eligible_count v [a])))),
      snd (assignUIDs_forEach ch v (c + eligible_count v [a])))"
  by (simp add: eligible_code annotated_def delete_verbose_fields_def uid_of_def eligible_count_def
      split: prod.splits)

lemma assignUIDs_forEach_Cons:
  "assignUIDs_forEach (t # ts) v c =
     (fst (assignUIDs t v c) # fst (assignUIDs_forEach ts v (snd (assignUIDs t v c))),
      snd (assignUIDs_forEach ts v (snd (assignUIDs t v c))))"
  by (simp add: split: prod.splits)

lemmas assignUIDs_eqs = assignUIDs_leaf assignUIDs_inner assignUIDs_forEach_Cons

declare assignUIDs.simps(1) [simp del] assignUIDs_forEach.simps(2) [simp del]

lemma uid_annotated:
  "uid (annotated v c a) = (if uid_eligible v a then Some (uid_of (c + 1)) else uid a)"
  by (simp add: annotated_def delete_verbose_fields_def)

lemma eligible_count_simps:
  "eligible_count v [] = 0"
  "eligible_count v (a # as) = (if uid_eligible v a then 1 else 0) + eligible_count v as"
  "eligible_count v (xs @ ys) = eligible_count v xs + eligible_count v ys"
  by (simp_all add: eligible_count_def)

lemma numbered_append:
  "numbered v c (xs @ ys) = numbered v c xs @ numbered v (c + eligible_count v xs) ys"
  by (induction xs arbitrary: c) (auto simp: eligible_count_simps)

lemma assignUIDs_counter:
  "snd (assignUIDs t v c) = c + eligible_count v (preorder t)"
  "snd (assignUIDs_forEach ts v c) = c + eligible_count v (preorder_list ts)"
  by (induction t and ts arbitrary: c and c rule: preorder_preorder_list.induct)
     (simp_all add: assignUIDs_eqs eligible_count_simps)

lemma assignUIDs_numbered:
  "map uid (preorder (fst (assignUIDs t v c))) = numbered v c (preorder t)"
  "map uid (preorder_list (fst (assignUIDs_forEach ts v c))) = numbered v c (preorder_list ts)"
  by (induction t and ts arbitrary: c and c rule: preorder_preorder_list.induct)
     (simp_all add: assignUIDs_eqs assignUIDs_counter uid_annotated numbered_append
        eligible_count_simps)

subsection \<open>Decimal numerals are injective\<close>

lemma digit_value_digit: "d < 10 \<Longrightarrow> digit_value (digit d) = d"
proof -
  assume "d < 10"
  then have "d \<in> {0, 1, 2, 3, 4, 5, 6, 7, 8, 9}" by auto
  then show ?thesis
    by (auto simp: digit_value_def digit_def)
qed

lemma read_nat_show_nat: "read_nat (show_nat n) = n"
proof (induction n rule: show_nat.induct)
  case (1 n)
  show ?case
  proof (cases "n < 10")
    case True
    then show ?thesis
      by (simp add: show_nat.simps [of n] read_nat_def digit_value_digit)
  next
    case False
    with 1 have "read_nat (show_nat (n div 10)) = n div 10" by simp
    with False show ?thesis
      by (simp add: show_nat.simps [of n] read_nat_def digit_value_digit)
  qed
qed

lemma inj_uid_of: "inj uid_of"
proof (rule injI)
  fix m n assume "uid_of m = uid_of n"
  then have "show_nat m = show_nat n" by (simp add: uid_of_def)
  then have "read_nat (show_nat m) = read_nat (show_nat n)" by simp
  then show "m = n" by (simp add: read_nat_show_nat)
qed

subsection \<open>The uid fields along the pre-order\<close>

lemma length_numbered: "length (numbered v c xs) = length xs"
  by (induction xs arbitrary: c) auto

lemma numbered_eligible:
  "map snd (filter (\<lambda>p. uid_eligible v (fst p)) (zip xs (numbered v c xs)))
     = map (\<lambda>n. Some (uid_of n)) [Suc c..<Suc (c + eligible_count v xs)]"
proof (induction xs arbitrary: c)
  case Nil
  then show ?case by (simp add: eligible_count_simps)
next
  case (Cons a xs)
  show ?case
  proof (cases "uid_eligible v a")
    case True
    have "[Suc c..<Suc (Suc (c + eligible_count v xs))]
            = Suc c # [Suc (Suc c)..<Suc (Suc (c + eligible_count v xs))]"
      by (simp add: upt_conv_Cons)
    with True Cons [of "Suc c"] show ?thesis
      by (simp add: eligible_count_simps)
  next
    case False
    with Cons [of c] show ?thesis by (simp add: eligible_count_simps)
  qed
qed

lemma numbered_other:
  "map snd (filter (\<lambda>p. \<not> uid_eligible v (fst p)) (zip xs (numbered v c xs)))
     = map uid (filter (\<lambda>a. \<not> uid_eligible v a) xs)"
  by (induction xs arbitrary: c) auto

lemma zip_map_uid:
  "map (\<lambda>p. uid (snd p)) (filter (\<lambda>p. P (fst p)) (zip xs ys))
     = map snd (filter (\<lambda>p. P (fst p)) (zip xs (map uid ys)))"
  by (induction xs ys rule: list_induct2') auto

lemma length_preorder_assignUIDs:
  "length (preorder (fst (assignUIDs t v c))) = length (preorder t)"
proof -
  have "length (map uid (preorder (fst (assignUIDs t v c)))) = length (numbered v c (preorder t))"
    by (simp only: assignUIDs_numbered)
  then show ?thesis by (simp add: length_numbered)
qed

lemma numbered_nth:
  "i < length xs \<Longrightarrow>
     (numbered v c xs ! i = None) = (\<not> uid_eligible v (xs ! i) \<and> uid (xs ! i) = None)"
  by (induction xs arbitrary: i c) (auto simp: nth_Cons split: nat.splits)

lemma uid_eligible_mono: "uid_eligible False a \<Longrightarrow> uid_eligible True a"
  by (auto simp: uid_eligible_def split: option.splits)

lemma uid_after:
  assumes "i < length (preorder t)"
  shows "(uid (preorder (fst (assignUIDs t v c)) ! i) = None)
           = (\<not> uid_eligible v (preorder t ! i) \<and> uid (preorder t ! i) = None)"
proof -
  let ?ys = "preorder (fst (assignUIDs t v c))"
  have len: "length ?ys = length (preorder t)" by (rule length_preorder_assignUIDs)
  have "uid (?ys ! i) = numbered v c (preorder t) ! i"
    using assignUIDs_numbered(1) [of t v c] len assms by (metis nth_map)
  with assms show ?thesis by (simp add: numbered_nth)
qed

lemma uid_positions_fresh:
  assumes "\<forall>a \<in> set (preorder t). uid a = None"
  shows "uid_positions (fst (assignUIDs t v c))
           = filter (\<lambda>i. uid_eligible v (preorder t ! i)) [0..<length (preorder t)]"
proof -
  have "(uid (preorder (fst (assignUIDs t v c)) ! i) \<noteq> None) = uid_eligible v (preorder t ! i)"
    if "i < length (preorder t)" for i
    using uid_after [OF that, of v c] assms that by simp
  then show ?thesis
    unfolding uid_positions_def length_preorder_assignUIDs
    by (intro filter_cong refl) simp
qed

lemma uid_positions_iff:
  "i \<in> set (uid_positions (fst (assignUIDs t v c)))
     \<longleftrightarrow> i < length (preorder t) \<and> (uid_eligible v (preorder t ! i) \<or> uid (preorder t ! i) \<noteq> None)"
  using uid_after [of i t v c]
  unfolding uid_positions_def length_preorder_assignUIDs by auto

lemmas eval_simps = no_attrs_def assignUIDs_eqs annotated_def uid_eligible_def
  interactive_role_set_def eligible_count_def uid_of_def show_nat.simps digit_def
  delete_verbose_fields_def

subsection \<open>Numbering\<close>

text \<open>
  Claim C1. For every tree and every verbose flag, running the annotator with a fresh
  counter gives a tree with the same pre-order length; the counter ends at \<open>k\<close>, the number
  of eligible nodes; the \<open>uid\<close> fields of the eligible nodes, read in pre-order, are
  \<open>uid_1\<close>, ..., \<open>uid_k\<close>; the \<open>uid\<close> field of every other node is what it was in the
  input; and the strings \<open>uid_1\<close>, ..., \<open>uid_k\<close> are pairwise different. When no
  node of the input carries a \<open>uid\<close>, the nodes that carry one afterwards are exactly
  the eligible nodes.
\<close>

theorem assignUIDs_uids:
  "length (preorder (fst (assignUIDs t v 0))) = length (preorder t)
   \<and> snd (assignUIDs t v 0) = eligible_count v (preorder t)
   \<and> map (\<lambda>p. uid (snd p))
        (filter (\<lambda>p. uid_eligible v (fst p)) (zip (preorder t) (preorder (fst (assignUIDs t v 0)))))
       = map (\<lambda>n. Some (uid_of n)) [1..<Suc (eligible_count v (preorder t))]
   \<and> map (\<lambda>p. uid (snd p))
        (filter (\<lambda>p. \<not> uid_eligible v (fst p)) (zip (preorder t) (preorder (fst (assignUIDs t v 0)))))
       = map uid (filter (\<lambda>a. \<not> uid_eligible v a) (preorder t))
   \<and> distinct (map uid_of [1..<Suc (eligible_count v (preorder t))])
   \<and> ((\<forall>a \<in> set (preorder t). uid a = None) \<longrightarrow>
        uid_positions (fst (assignUIDs t v 0))
          = filter (\<lambda>i. uid_eligible v (preorder t ! i)) [0..<length (preorder t)])"
proof -
  let ?xs = "preorder t" and ?ys = "preorder (fst (assignUIDs t v 0))"
  have ys: "map uid ?ys = numbered v 0 ?xs"
    by (rule assignUIDs_numbered)
  have c: "snd (assignUIDs t v 0) = eligible_count v ?xs"
    by (simp add: assignUIDs_counter)
  have e: "map (\<lambda>p. uid (snd p)) (filter (\<lambda>p. uid_eligible v (fst p)) (zip ?xs ?ys))
             = map (\<lambda>n. Some (uid_of n)) [1..<Suc (eligible_count v ?xs)]"
    using numbered_eligible [of v ?xs 0]
    by (simp add: zip_map_uid [of "uid_eligible v"] ys)
  have n: "map (\<lambda>p. uid (snd p)) (filter (\<lambda>p. \<not> uid_eligible v (fst p)) (zip ?xs ?ys))
             = map uid (filter (\<lambda>a. \<not> uid_eligible v a) ?xs)"
    using numbered_other [of v ?xs 0]
    by (simp add: zip_map_uid [of "\<lambda>a. \<not> uid_eligible v a"] ys)
  have d: "distinct (map uid_of [1..<Suc (eligible_count v ?xs)])"
    by (simp add: distinct_map inj_on_def injD [OF inj_uid_of])
  from length_preorder_assignUIDs [of t v 0] c e n d uid_positions_fresh [of t v 0]
  show ?thesis
    by blast
qed

theorem assignUIDs_uids_witness:
  "map uid (preorder example_tree) = [None, None, None]
   \<and> snd (assignUIDs example_tree False 0) = 1
   \<and> eligible_count False (preorder example_tree) = 1
   \<and> map uid (preorder (fst (assignUIDs example_tree False 0))) = [None, None, Some ''uid_1'']
   \<and> uid_positions (fst (assignUIDs example_tree False 0)) = [2]"
proof -
  have h: "\<forall>a \<in> set (preorder example_tree). uid a = None"
    by (simp add: example_tree_def no_attrs_def)
  with assignUIDs_uids [of example_tree False]
  have "uid_positions (fst (assignUIDs example_tree False 0))
          = filter (\<lambda>i. uid_eligible False (preorder example_tree ! i))
              [0..<length (preorder example_tree)]"
    by blast
  then have p: "uid_positions (fst (assignUIDs example_tree False 0)) = [2]"
    by (simp add: example_tree_def no_attrs_def uid_eligible_def interactive_role_set_def upt_rec)
  have "snd (assignUIDs example_tree False 0) = 1
   \<and> eligible_count False (preorder example_tree) = 1
   \<and> map uid (preorder (fst (assignUIDs example_tree False 0))) = [None, None, Some ''uid_1'']"
    by (simp add: example_tree_def eval_simps)
  moreover have "map uid (preorder example_tree) = [None, None, None]"
    by (simp add: example_tree_def no_attrs_def)
  ultimately show ?thesis using p by blast
qed


subsection \<open>Frame: what the annotator leaves alone\<close>

lemma erase_uid_annotated:
  "erase_uid (annotated v c a) = erase_uid (if v then a else delete_verbose_fields a)"
  by (simp add: erase_uid_def annotated_def delete_verbose_fields_def)

lemma delete_annotated:
  "delete_verbose_fields (annotated False c a) = annotated False c a"
  by (simp add: annotated_def delete_verbose_fields_def)

lemma assignUIDs_erase_uid:
  "map_attrs erase_uid (fst (assignUIDs t v c))
     = map_attrs (\<lambda>a. erase_uid (if v then a else delete_verbose_fields a)) t"
  "map_attrs_list erase_uid (fst (assignUIDs_forEach ts v c))
     = map_attrs_list (\<lambda>a. erase_uid (if v then a else delete_verbose_fields a)) ts"
  by (induction t and ts arbitrary: c and c rule: preorder_preorder_list.induct)
     (simp_all add: assignUIDs_eqs erase_uid_annotated)

lemma assignUIDs_deleted:
  "map_attrs delete_verbose_fields (fst (assignUIDs t False c)) = fst (assignUIDs t False c)"
  "map_attrs_list delete_verbose_fields (fst (assignUIDs_forEach ts False c))
     = fst (assignUIDs_forEach ts False c)"
  by (induction t and ts arbitrary: c and c rule: preorder_preorder_list.induct)
     (simp_all add: assignUIDs_eqs delete_annotated)

lemma map_attrs_comp:
  "map_attrs f (map_attrs g t) = map_attrs (\<lambda>a. f (g a)) t"
  "map_attrs_list f (map_attrs_list g ts) = map_attrs_list (\<lambda>a. f (g a)) ts"
  by (induction t and ts rule: preorder_preorder_list.induct) simp_all

lemma map_attrs_id:
  "map_attrs (\<lambda>a. a) t = t"
  "map_attrs_list (\<lambda>a. a) ts = ts"
  by (induction t and ts rule: preorder_preorder_list.induct) simp_all

lemma assignUIDs_shape:
  "map_attrs (\<lambda>a. no_attrs) (fst (assignUIDs t v c)) = map_attrs (\<lambda>a. no_attrs) t"
proof -
  have "map_attrs (\<lambda>a. no_attrs) (map_attrs erase_uid (fst (assignUIDs t v c)))
          = map_attrs (\<lambda>a. no_attrs)
              (map_attrs (\<lambda>a. erase_uid (if v then a else delete_verbose_fields a)) t)"
    by (simp only: assignUIDs_erase_uid)
  then show ?thesis by (simp add: map_attrs_comp)
qed

text \<open>
  Claim C8. For every tree and verbose flag the annotator keeps every node, with the same
  children in the same order. With \<open>verbose\<close> true the output differs from the input in
  \<open>uid\<close> fields only; with \<open>verbose\<close> false it differs from the input with the eight
  verbose-only fields removed at every node in \<open>uid\<close> fields only, and the eight fields are
  absent from every node of the output. In either mode the \<open>uid\<close> field of a node that
  is not eligible is what it was.
\<close>

theorem assignUIDs_frame:
  "map_attrs (\<lambda>a. no_attrs) (fst (assignUIDs t v c)) = map_attrs (\<lambda>a. no_attrs) t
   \<and> map_attrs erase_uid (fst (assignUIDs t True c)) = map_attrs erase_uid t
   \<and> map_attrs erase_uid (fst (assignUIDs t False c))
       = map_attrs erase_uid (map_attrs delete_verbose_fields t)
   \<and> map_attrs delete_verbose_fields (fst (assignUIDs t False c)) = fst (assignUIDs t False c)
   \<and> map (\<lambda>p. uid (snd p))
        (filter (\<lambda>p. \<not> uid_eligible v (fst p)) (zip (preorder t) (preorder (fst (assignUIDs t v c)))))
       = map uid (filter (\<lambda>a. \<not> uid_eligible v a) (preorder t))"
proof -
  have n: "map (\<lambda>p. uid (snd p))
        (filter (\<lambda>p. \<not> uid_eligible v (fst p)) (zip (preorder t) (preorder (fst (assignUIDs t v c)))))
       = map uid (filter (\<lambda>a. \<not> uid_eligible v a) (preorder t))"
    using numbered_other [of v "preorder t" c]
    by (simp add: zip_map_uid [of "\<lambda>a. \<not> uid_eligible v a"] assignUIDs_numbered)
  show ?thesis
    using n assignUIDs_erase_uid(1) [of t True c] assignUIDs_erase_uid(1) [of t False c]
    by (simp add: assignUIDs_deleted map_attrs_comp assignUIDs_shape)
qed

theorem assignUIDs_frame_witness:
  "fst (assignUIDs (Node (no_attrs\<lparr>role := Some ''heading'', description := Some ''d'',
                              invalid := Some ''i''\<rparr>) (Some [])) False 0)
     = Node (no_attrs\<lparr>role := Some ''heading''\<rparr>) (Some [])
   \<and> fst (assignUIDs (Node (no_attrs\<lparr>role := Some ''heading'', description := Some ''d'',
                              invalid := Some ''i''\<rparr>) (Some [])) True 0)
     = Node (no_attrs\<lparr>role := Some ''heading'', description := Some ''d'',
                              invalid := Some ''i'', uid := Some ''uid_1''\<rparr>) (Some [])"
proof -
  let ?t = "Node (no_attrs\<lparr>role := Some ''heading'', description := Some ''d'',
                              invalid := Some ''i''\<rparr>) (Some [])"
  have "map_attrs erase_uid (fst (assignUIDs ?t True 0)) = map_attrs erase_uid ?t"
    using assignUIDs_frame [where t = ?t and c = 0] by blast
  then show ?thesis
    by (simp add: eval_simps erase_uid_def)
qed

subsection \<open>Verbose gating\<close>

text \<open>
  Claim C9. For every input tree, the pre-order positions of the nodes that carry a \<open>uid\<close>
  after the annotator ran with \<open>verbose\<close> false are among the positions of the nodes that
  carry one after it ran with \<open>verbose\<close> true on the same tree.
\<close>

theorem assignUIDs_verbose_gating:
  "set (uid_positions (fst (assignUIDs t False c))) \<subseteq> set (uid_positions (fst (assignUIDs t True c')))"
  by (auto simp: uid_positions_iff uid_eligible_mono)


theorem assignUIDs_verbose_gating_witness:
  "uid_positions (fst (assignUIDs example_tree False 0)) = [2]
   \<and> uid_positions (fst (assignUIDs example_tree True 0)) = [0, 1, 2]"
proof -
  have "set (uid_positions (fst (assignUIDs example_tree False 0)))
          \<subseteq> set (uid_positions (fst (assignUIDs example_tree True 0)))"
    by (rule assignUIDs_verbose_gating)
  then show ?thesis
    by (simp add: uid_positions_def example_tree_def eval_simps upt_rec)
qed

section \<open>The formatter\<close>

lemma formatSnapshot_forEach_concat:
  "formatSnapshot_forEach cs d r = r @ concat (map (\<lambda>c. formatSnapshot c (d + 1)) cs)"
  by (induction cs arbitrary: r) simp_all

lemma formatSnapshot_leaf:
  "formatSnapshot (Node a None) d =
     (if node_parts a = [] then [] else repeat ''  '' d @ join '' '' (node_parts a) @ newline)"
  by (simp add: Let_def)

lemma formatSnapshot_inner:
  "formatSnapshot (Node a (Some ch)) d
     = formatSnapshot (Node a None) d @ concat (map (\<lambda>c. formatSnapshot c (d + 1)) ch)"
  by (cases ch) (simp_all add: Let_def formatSnapshot_forEach_concat)

declare formatSnapshot.simps(1) [simp del]

lemma formatSnapshot_preorder:
  "formatSnapshot t d
     = concat (map (\<lambda>p. formatSnapshot (Node (fst p) None) (snd p)) (preorder_depth t d))"
  "concat (map (\<lambda>c. formatSnapshot c d) ts)
     = concat (map (\<lambda>p. formatSnapshot (Node (fst p) None) (snd p)) (preorder_depth_list ts d))"
  by (induction t d and ts d rule: preorder_depth_preorder_depth_list.induct)
     (simp_all add: formatSnapshot_inner)

lemma truthy_bool_iff: "truthy_bool x = (x = Some True)"
  by (cases x) auto

lemma node_states_parts:
  "node_states a =
     part (disabled a = Some True) ''disabled''
     @ part (checked a = Some (B True)) ''checked''
     @ part (checked a = Some Mixed) ''mixed''
     @ part (expanded a = Some True) ''expanded''
     @ part (expanded a = Some False) ''collapsed''
     @ part (selected a = Some True) ''selected''
     @ part (focused a = Some True) ''focused''
     @ part (required a = Some True) ''required''
     @ part (readonly a = Some True) ''readonly''"
  by (simp add: node_states_def part_def truthy_bool_iff)

lemma node_parts_parts:
  "node_parts a =
     part (truthy_str (uid a)) (''['' @ the (uid a) @ '']'')
     @ part (truthy_str (role a)) (the (role a))
     @ part (truthy_str (name a)) (dquote @ the (name a) @ dquote)
     @ part (truthy_value (value' a)) (''value='' @ dquote @ show_value (the (value' a)) @ dquote)
     @ part (node_states a \<noteq> []) (''('' @ join '', '' (node_states a) @ '')'')"
  by (simp add: node_parts_def part_def Let_def)

lemma node_states_clear: "node_states (clear_unrendered a) = node_states a"
  by (simp add: node_states_def clear_unrendered_def)

lemma node_parts_clear: "node_parts (clear_unrendered a) = node_parts a"
  by (simp add: node_parts_def node_states_clear) (simp add: clear_unrendered_def)

lemma formatSnapshot_clear:
  "formatSnapshot (map_attrs clear_unrendered t) d = formatSnapshot t d"
  "concat (map (\<lambda>c. formatSnapshot c d) (map_attrs_list clear_unrendered ts))
     = concat (map (\<lambda>c. formatSnapshot c d) ts)"
  by (induction t d and ts d rule: preorder_depth_preorder_depth_list.induct)
     (simp_all add: formatSnapshot_inner formatSnapshot_leaf node_parts_clear)

lemma no_renderable_parts: "no_renderable_attribute a \<Longrightarrow> node_parts a = []"
  by (simp add: no_renderable_attribute_def node_parts_parts node_states_parts part_def)

lemma repeat_two_spaces: "repeat ''  '' k = replicate (2 * k) (CHR '' '')"
  by (induction k) (simp_all add: repeat_def)

lemma truthy_value_iff:
  "truthy_value x = (x \<notin> {None, Some (VNumber 0), Some (VString [])})"
  by (cases x rule: truthy_value.cases) auto

lemmas format_eval = formatSnapshot_leaf formatSnapshot_inner node_parts_def node_states_def
  no_attrs_def repeat_def dquote_def newline_def show_int_def show_nat.simps digit_def

subsection \<open>The line of one node\<close>

text \<open>
  Claim C3. For every node the parts of its line are, in this order, the bracketed \<open>uid\<close>,
  the \<open>role\<close>, the quoted \<open>name\<close>, \<open>value="..."\<close> and the parenthesised state list, each
  only when its test holds; the line is the indentation, the parts joined by single spaces
  and a newline, emitted only when there is a part, and followed by the lines of the
  children; and the value part is there exactly when \<open>value\<close> is present and truthy, that
  is neither absent nor \<open>0\<close> nor the empty string.
\<close>

theorem formatSnapshot_line:
  "node_parts a =
     part (truthy_str (uid a)) (''['' @ the (uid a) @ '']'')
     @ part (truthy_str (role a)) (the (role a))
     @ part (truthy_str (name a)) (dquote @ the (name a) @ dquote)
     @ part (truthy_value (value' a)) (''value='' @ dquote @ show_value (the (value' a)) @ dquote)
     @ part (node_states a \<noteq> []) (''('' @ join '', '' (node_states a) @ '')'')
   \<and> formatSnapshot (Node a None) d =
       (if node_parts a = [] then []
        else repeat ''  '' d @ join '' '' (node_parts a) @ newline)
   \<and> formatSnapshot (Node a (Some ch)) d =
       formatSnapshot (Node a None) d @ concat (map (\<lambda>c. formatSnapshot c (d + 1)) ch)
   \<and> truthy_value (value' a) = (value' a \<notin> {None, Some (VNumber 0), Some (VString [])})"
  using node_parts_parts [of a] formatSnapshot_leaf [of a d] formatSnapshot_inner [of a ch d]
    truthy_value_iff [of "value' a"]
  by blast

theorem formatSnapshot_line_witness:
  "formatSnapshot (Node example_button None) 1
     = ''  [uid_1] button '' @ dquote @ ''Sign in'' @ dquote @ '' value='' @ dquote @ ''5''
       @ dquote @ '' (disabled, focused)'' @ newline
   \<and> formatSnapshot (Node (example_button\<lparr>value' := Some (VNumber 0)\<rparr>) None) 1
     = ''  [uid_1] button '' @ dquote @ ''Sign in'' @ dquote @ '' (disabled, focused)'' @ newline
   \<and> formatSnapshot (Node (example_button\<lparr>value' := Some (VString [])\<rparr>) None) 1
     = ''  [uid_1] button '' @ dquote @ ''Sign in'' @ dquote @ '' (disabled, focused)'' @ newline"
proof -
  have line: "formatSnapshot (Node a None) d =
       (if node_parts a = [] then [] else repeat ''  '' d @ join '' '' (node_parts a) @ newline)"
    for a d
    using formatSnapshot_line [of a d] by blast
  show ?thesis
    by (simp add: line example_button_def node_parts_def node_states_def no_attrs_def repeat_def
        dquote_def newline_def show_int_def show_nat.simps digit_def)
qed

subsection \<open>Skipped nodes\<close>

text \<open>
  Claim C4, as stated, fails: a node without \<open>role\<close>, \<open>name\<close> and \<open>value\<close> whose only state
  flag is \<open>expanded = false\<close> has every flag absent or false and still produces the line
  \<open>(collapsed)\<close>; and a node that has only a \<open>uid\<close> produces the line \<open>[uid_1]\<close>.
\<close>

theorem formatSnapshot_skip_counterexample:
  "role collapsed_attrs = None \<and> name collapsed_attrs = None \<and> value' collapsed_attrs = None
   \<and> disabled collapsed_attrs = None \<and> expanded collapsed_attrs = Some False
   \<and> focused collapsed_attrs = None \<and> selected collapsed_attrs = None
   \<and> required collapsed_attrs = None \<and> readonly collapsed_attrs = None
   \<and> checked collapsed_attrs = None \<and> pressed collapsed_attrs = None
   \<and> formatSnapshot (Node collapsed_attrs None) 0 = ''(collapsed)'' @ newline
   \<and> role bare_uid_attrs = None \<and> name bare_uid_attrs = None \<and> value' bare_uid_attrs = None
   \<and> node_states bare_uid_attrs = []
   \<and> formatSnapshot (Node bare_uid_attrs None) 0 = ''[uid_1]'' @ newline"
  by (simp add: collapsed_attrs_def bare_uid_attrs_def format_eval)

text \<open>
  Claim C4, amended. For every node with \<open>uid\<close>, \<open>role\<close>, \<open>name\<close> and \<open>value\<close> absent, the
  flags \<open>disabled\<close>, \<open>checked\<close>, \<open>selected\<close>, \<open>focused\<close>, \<open>required\<close> and \<open>readonly\<close> absent
  or false and \<open>expanded\<close> absent, the formatter produces no line for that node and formats
  its children in order, one level deeper. For every tree the output is the concatenation,
  in pre-order, of what each node produces alone at its own depth, and a node with a part
  to render produces one line indented by two spaces per level of its own depth.
\<close>

theorem formatSnapshot_skip:
  assumes "no_renderable_attribute a"
  shows "formatSnapshot (Node a None) d = []
   \<and> formatSnapshot (Node a (Some ch)) d = concat (map (\<lambda>c. formatSnapshot c (d + 1)) ch)
   \<and> formatSnapshot t k
       = concat (map (\<lambda>p. formatSnapshot (Node (fst p) None) (snd p)) (preorder_depth t k))
   \<and> (node_parts a' \<noteq> [] \<longrightarrow>
        formatSnapshot (Node a' None) k
          = replicate (2 * k) (CHR '' '') @ join '' '' (node_parts a') @ newline)"
proof -
  from assms have p: "node_parts a = []" by (rule no_renderable_parts)
  then have 1: "formatSnapshot (Node a None) d = []"
    by (simp add: formatSnapshot_leaf)
  then have 2: "formatSnapshot (Node a (Some ch)) d = concat (map (\<lambda>c. formatSnapshot c (d + 1)) ch)"
    by (simp add: formatSnapshot_inner)
  have 3: "node_parts a' \<noteq> [] \<longrightarrow>
        formatSnapshot (Node a' None) k
          = replicate (2 * k) (CHR '' '') @ join '' '' (node_parts a') @ newline"
    by (simp add: formatSnapshot_leaf repeat_two_spaces)
  from 1 2 3 formatSnapshot_preorder(1) [of t k] show ?thesis by blast
qed

theorem formatSnapshot_skip_witness:
  "no_renderable_attribute (attrs skipped_root_tree)
   \<and> formatSnapshot (Node (attrs skipped_root_tree) None) 0 = []
   \<and> formatSnapshot skipped_root_tree 0
       = ''  heading '' @ dquote @ ''Title'' @ dquote @ newline
         @ ''    [uid_1] button '' @ dquote @ ''Sign in'' @ dquote @ '' value='' @ dquote @ ''5''
           @ dquote @ '' (disabled, focused)'' @ newline
         @ ''  [uid_1] button '' @ dquote @ ''Sign in'' @ dquote @ '' value='' @ dquote @ ''5''
           @ dquote @ '' (disabled, focused)'' @ newline"
proof -
  have h: "no_renderable_attribute (attrs skipped_root_tree)"
    by (simp add: skipped_root_tree_def no_renderable_attribute_def no_attrs_def)
  note th = formatSnapshot_skip [OF h, where d = 0 and t = skipped_root_tree and k = 0
      and a' = example_button]
  from th have 1: "formatSnapshot (Node (attrs skipped_root_tree) None) 0 = []"
    by blast
  from th have "formatSnapshot skipped_root_tree 0
       = concat (map (\<lambda>p. formatSnapshot (Node (fst p) None) (snd p))
           (preorder_depth skipped_root_tree 0))"
    by blast
  then have 2: "formatSnapshot skipped_root_tree 0
       = ''  heading '' @ dquote @ ''Title'' @ dquote @ newline
         @ ''    [uid_1] button '' @ dquote @ ''Sign in'' @ dquote @ '' value='' @ dquote @ ''5''
           @ dquote @ '' (disabled, focused)'' @ newline
         @ ''  [uid_1] button '' @ dquote @ ''Sign in'' @ dquote @ '' value='' @ dquote @ ''5''
           @ dquote @ '' (disabled, focused)'' @ newline"
    by (simp add: skipped_root_tree_def example_button_def pressed_heading_def format_eval)
  from h 1 2 show ?thesis by blast
qed

subsection \<open>Attributes that are never rendered\<close>

text \<open>
  Claim C10. For every node, setting \<open>pressed\<close>, \<open>modal\<close>, \<open>multiline\<close>, \<open>multiselectable\<close>,
  \<open>level\<close>, \<open>valuemin\<close> and \<open>valuemax\<close> to any values changes neither the parts of the line
  nor the state list; two trees that are equal once these seven attributes are removed
  from every node have the same formatted text; and a node whose only attributes are
  among these seven produces no line of its own, only the lines of its children.
\<close>

theorem formatSnapshot_unrendered:
  "node_parts (a\<lparr>pressed := p, modal := mo, multiline := ml, multiselectable := ms,
                 level := lv, valuemin := lo, valuemax := hi\<rparr>) = node_parts a
   \<and> node_states (a\<lparr>pressed := p, modal := mo, multiline := ml, multiselectable := ms,
                 level := lv, valuemin := lo, valuemax := hi\<rparr>) = node_states a
   \<and> (map_attrs clear_unrendered t1 = map_attrs clear_unrendered t2 \<longrightarrow>
        formatSnapshot t1 d = formatSnapshot t2 d)
   \<and> formatSnapshot (Node (no_attrs\<lparr>pressed := p, modal := mo, multiline := ml,
         multiselectable := ms, level := lv, valuemin := lo, valuemax := hi\<rparr>) None) d = []
   \<and> formatSnapshot (Node (no_attrs\<lparr>pressed := p, modal := mo, multiline := ml,
         multiselectable := ms, level := lv, valuemin := lo, valuemax := hi\<rparr>) (Some ch)) d
       = concat (map (\<lambda>c. formatSnapshot c (d + 1)) ch)"
proof -
  let ?a = "a\<lparr>pressed := p, modal := mo, multiline := ml, multiselectable := ms,
                 level := lv, valuemin := lo, valuemax := hi\<rparr>"
  let ?n = "no_attrs\<lparr>pressed := p, modal := mo, multiline := ml,
         multiselectable := ms, level := lv, valuemin := lo, valuemax := hi\<rparr>"
  have s: "node_states ?a = node_states a"
    by (simp add: node_states_def)
  have 1: "node_parts ?a = node_parts a"
    by (simp add: node_parts_def s)
  have 3: "map_attrs clear_unrendered t1 = map_attrs clear_unrendered t2 \<longrightarrow>
        formatSnapshot t1 d = formatSnapshot t2 d"
    by (metis formatSnapshot_clear(1))
  have n: "node_parts ?n = []"
    by (simp add: node_parts_def node_states_def no_attrs_def)
  then have 4: "formatSnapshot (Node ?n None) d = []"
    by (simp add: formatSnapshot_leaf)
  then have 5: "formatSnapshot (Node ?n (Some ch)) d = concat (map (\<lambda>c. formatSnapshot c (d + 1)) ch)"
    by (simp add: formatSnapshot_inner)
  from 1 s 3 4 5 show ?thesis by blast
qed

theorem formatSnapshot_unrendered_witness:
  "map_attrs clear_unrendered (Node pressed_heading None)
     = map_attrs clear_unrendered (Node (pressed_heading\<lparr>pressed := None, level := Some 3,
          modal := Some True, valuemax := Some 7\<rparr>) None)
   \<and> formatSnapshot (Node pressed_heading None) 0
     = formatSnapshot (Node (pressed_heading\<lparr>pressed := None, level := Some 3,
          modal := Some True, valuemax := Some 7\<rparr>) None) 0
   \<and> formatSnapshot (Node pressed_heading None) 0 = ''heading '' @ dquote @ ''Title'' @ dquote @ newline"
proof -
  let ?t2 = "Node (pressed_heading\<lparr>pressed := None, level := Some 3,
          modal := Some True, valuemax := Some 7\<rparr>) None"
  have h: "map_attrs clear_unrendered (Node pressed_heading None) = map_attrs clear_unrendered ?t2"
    by (simp add: pressed_heading_def clear_unrendered_def no_attrs_def)
  with formatSnapshot_unrendered [where ?t1.0 = "Node pressed_heading None" and ?t2.0 = ?t2 and d = 0]
  have 1: "formatSnapshot (Node pressed_heading None) 0 = formatSnapshot ?t2 0"
    by blast
  have 2: "formatSnapshot (Node pressed_heading None) 0
             = ''heading '' @ dquote @ ''Title'' @ dquote @ newline"
    by (simp add: pressed_heading_def format_eval)
  from h 1 2 show ?thesis by blast
qed



section \<open>Navigation\<close>

lemma goto_events: "ev \<in> set (snd (goto e b u t)) \<Longrightarrow> \<exists>p. ev = PageGoto p u t"
  by (auto simp: goto_def split: sum.splits option.splits if_splits)





section \<open>The snapshot orchestrator\<close>

lemma goto_no_snapshot: "AccessibilitySnapshot p x \<notin> set (snd (goto e b u t))"
  using goto_events [of "AccessibilitySnapshot p x" e b u t] by auto

lemma repeat_eq_60: "repeat ''='' 60 = replicate 60 (CHR ''='')"
proof -
  have "repeat ''='' n = replicate n (CHR ''='')" for n
    by (induction n) (simp_all add: repeat_def)
  then show ?thesis .
qed

lemma takeSnapshot_retrieved:
  assumes "takeSnapshot e pg b args = (r, evs)" and "AccessibilitySnapshot p x \<in> set evs"
  shows "x = accessibility_snapshot e
         \<and> r = (case x of
                  Inl err \<Rightarrow> Inl err
                | Inr None \<Rightarrow> Inr ''No accessibility tree available for this page.''
                | Inr (Some t) \<Rightarrow>
                    Inr (snapshot_header (snd (assignUIDs t (truthy_bool (verbose args)) 0))
                         @ formatSnapshot (fst (assignUIDs t (truthy_bool (verbose args)) 0)) 0))"
proof -
  obtain nr nevs where nav:
    "(if truthy_str (TakeSnapshotArgs.url args)
      then goto e b (the (TakeSnapshotArgs.url args)) DEFAULT_NAVIGATION_TIMEOUT
      else (Inr (), [])) = (nr, nevs)"
    by (cases "if truthy_str (TakeSnapshotArgs.url args)
      then goto e b (the (TakeSnapshotArgs.url args)) DEFAULT_NAVIGATION_TIMEOUT
      else (Inr (), [])") blast
  have no: "AccessibilitySnapshot p x \<notin> set nevs"
    using nav goto_no_snapshot [of p x e b "the (TakeSnapshotArgs.url args)" DEFAULT_NAVIGATION_TIMEOUT]
    by (auto split: if_splits)
  show ?thesis
  proof (cases nr)
    case (Inl err)
    with assms nav no show ?thesis by (simp add: takeSnapshot_def)
  next
    case (Inr u)
    with assms nav no show ?thesis
      by (auto simp: takeSnapshot_def snapshot_header_def repeat_eq_60 Let_def
          split: sum.splits option.splits prod.splits)
  qed
qed

lemma evaluateScript_no_snapshot:
  "AccessibilitySnapshot p x \<notin> set (snd (evaluateScript e pg b args))"
proof -
  have "AccessibilitySnapshot p x \<notin> set nevs"
    if "(if truthy_str (EvaluateScriptArgs.url args)
      then goto e b (the (EvaluateScriptArgs.url args)) DEFAULT_NAVIGATION_TIMEOUT
      else (Inr (), [])) = (nr, nevs)" for nr nevs
    using that goto_no_snapshot [of p x e b "the (EvaluateScriptArgs.url args)" DEFAULT_NAVIGATION_TIMEOUT]
    by (auto split: if_splits)
  then show ?thesis
    by (auto simp: evaluateScript_def Let_def split: sum.splits prod.splits)
qed

lemma connect_events:
  "connect e b = Some (r, b', evs) \<Longrightarrow> filter page_event evs = []"
  by (auto simp: connect_def Let_def split: option.splits sum.splits if_splits)

lemma ensureConnected_events:
  "ensureConnected e b = Some (r, b', evs) \<Longrightarrow> filter page_event evs = []"
  by (auto simp: ensureConnected_def dest: connect_events split: option.splits sum.splits if_splits prod.splits)

lemma dispatch_sentinel:
  assumes "dispatch e pg b tool jargs = (r, evs)" and "AccessibilitySnapshot p (Inr None) \<in> set evs"
  shows "r = Inr ''No accessibility tree available for this page.''"
proof -
  consider (ts) v where "tool = ''take_snapshot''" "takeSnapshot e pg b v = (r, evs)"
    | (es) v where "evaluateScript e pg b v = (r, evs)"
    | (none) "evs = []"
    using assms(1) by (auto simp: dispatch_def split: if_splits sum.splits)
  then show ?thesis
  proof cases
    case ts
    from takeSnapshot_retrieved [OF ts(2) assms(2)] show ?thesis by simp
  next
    case es
    with assms(2) evaluateScript_no_snapshot [of p "Inr None" e pg b v] show ?thesis by simp
  next
    case none
    with assms(2) show ?thesis by simp
  qed
qed

lemma callTool_cases:
  assumes "callTool e b tool jargs = Some (resp, b', evs)"
  obtains (not_connected) err where "resp = error_response err" "filter page_event evs = []"
    | (dispatched) pg evs0 r evs1 where "filter page_event evs0 = []" "evs = evs0 @ evs1"
        "dispatch e pg b' tool jargs = (r, evs1)"
        "resp = (case r of Inl err \<Rightarrow> error_response err
                 | Inr result \<Rightarrow> \<lparr>content_text = result, isError = False\<rparr>)"
proof (cases "ensureConnected e b")
  case None
  with assms show ?thesis by (simp add: callTool_def)
next
  case (Some x)
  obtain r0 b0 evs0 where x: "x = (r0, b0, evs0)" by (cases x) auto
  note ec = ensureConnected_events [OF Some [unfolded x]]
  show ?thesis
  proof (cases r0)
    case (Inl err)
    with assms Some x ec show ?thesis
      by (intro not_connected [of err]) (auto simp: callTool_def)
  next
    case (Inr u)
    show ?thesis
    proof (cases "getPage b0")
      case (Inl err)
      with assms Some x ec Inr show ?thesis
        by (intro not_connected [of err]) (auto simp: callTool_def)
    next
      case gp: (Inr pg)
      obtain r evs1 where d: "dispatch e pg b0 tool jargs = (r, evs1)"
        by (cases "dispatch e pg b0 tool jargs") auto
      with assms Some x ec Inr gp show ?thesis
        by (intro dispatched [of evs0 evs1 pg r]) (auto simp: callTool_def split: sum.splits)
    qed
  qed
qed

lemmas server_eval = callTool_def ensureConnected_def isConnected_def connect_def getPage_def
  dispatch_def or_empty_def evaluateScriptSchema_parse_def takeSnapshotSchema_parse_def
  evaluateScript_def takeSnapshot_def error_response_def goto_def DEFAULT_NAVIGATION_TIMEOUT_def

text \<open>
  Claim C2. For every call of \<open>takeSnapshot\<close> in which the tree retrieval yields a tree, the
  returned text is the header line with the count \<open>k\<close>, a line of sixty \<open>=\<close>, and the
  formatted annotated tree, where \<open>k\<close> is the counter after the annotator ran in that call,
  which is the number of eligible nodes of the tree.
\<close>

theorem takeSnapshot_text:
  assumes "takeSnapshot e pg b args = (r, evs)"
    and "AccessibilitySnapshot pg (Inr (Some t)) \<in> set evs"
  shows "r = Inr (''Accessibility Snapshot (''
                  @ show_nat (eligible_count (truthy_bool (verbose args)) (preorder t))
                  @ '' interactive elements)'' @ newline
                  @ replicate 60 (CHR ''='') @ newline
                  @ formatSnapshot (fst (assignUIDs t (truthy_bool (verbose args)) 0)) 0)
         \<and> snd (assignUIDs t (truthy_bool (verbose args)) 0)
             = eligible_count (truthy_bool (verbose args)) (preorder t)"
  using takeSnapshot_retrieved [OF assms]
  by (simp add: snapshot_header_def assignUIDs_counter)

theorem takeSnapshot_text_witness:
  "AccessibilitySnapshot 1 (Inr (Some example_tree))
     \<in> set (snd (takeSnapshot example_env 1 connected_browser no_args))
   \<and> fst (takeSnapshot example_env 1 connected_browser no_args)
       = Inr (''Accessibility Snapshot (1 interactive elements)'' @ newline
              @ ''============================================================'' @ newline
              @ ''main'' @ newline
              @ ''  heading '' @ dquote @ ''Title'' @ dquote @ newline
              @ ''  [uid_1] button '' @ dquote @ ''Sign in'' @ dquote @ '' (disabled)'' @ newline)"
proof -
  have h1: "takeSnapshot example_env 1 connected_browser no_args
             = (fst (takeSnapshot example_env 1 connected_browser no_args),
                snd (takeSnapshot example_env 1 connected_browser no_args))"
    by simp
  have h2: "AccessibilitySnapshot 1 (Inr (Some example_tree))
     \<in> set (snd (takeSnapshot example_env 1 connected_browser no_args))"
    by (simp add: takeSnapshot_def example_env_def no_args_def split: prod.splits)
  have t: "fst (assignUIDs example_tree False 0)
      = Node (no_attrs\<lparr>role := Some ''main''\<rparr>)
       (Some [Node (no_attrs\<lparr>role := Some ''heading'', name := Some ''Title''\<rparr>) None,
              Node (no_attrs\<lparr>role := Some ''button'', name := Some ''Sign in'',
                             disabled := Some True, uid := Some ''uid_1''\<rparr>) None])"
    by (simp add: example_tree_def eval_simps)
  have c: "eligible_count False (preorder example_tree) = 1"
    by (simp add: example_tree_def eval_simps)
  have v: "truthy_bool (verbose no_args) = False" by (simp add: no_args_def)
  from takeSnapshot_text [OF h1 h2]
  have "fst (takeSnapshot example_env 1 connected_browser no_args)
      = Inr (''Accessibility Snapshot ('' @ show_nat 1 @ '' interactive elements)'' @ newline
                  @ replicate 60 (CHR ''='') @ newline
                  @ formatSnapshot (fst (assignUIDs example_tree False 0)) 0)"
    by (simp only: v c)
  then have "fst (takeSnapshot example_env 1 connected_browser no_args)
       = Inr (''Accessibility Snapshot (1 interactive elements)'' @ newline
              @ ''============================================================'' @ newline
              @ ''main'' @ newline
              @ ''  heading '' @ dquote @ ''Title'' @ dquote @ newline
              @ ''  [uid_1] button '' @ dquote @ ''Sign in'' @ dquote @ '' (disabled)'' @ newline)"
    unfolding t by (simp add: format_eval eval_nat_numeral)
  with h2 show ?thesis by blast
qed

text \<open>
  Claim C6. For every call of \<open>takeSnapshot\<close> in which the tree retrieval yields no tree,
  the call returns (it does not throw) exactly the sentinel text, with no header and no
  separator; and a tool call in which that happens answers with the sentinel text and
  without the error flag.
\<close>

theorem takeSnapshot_sentinel:
  "(takeSnapshot e pg b args = (r, evs) \<and> AccessibilitySnapshot pg (Inr None) \<in> set evs \<longrightarrow>
      r = Inr ''No accessibility tree available for this page.'')
   \<and> (callTool e b0 tool jargs = Some (resp, b', evs') \<and> AccessibilitySnapshot pg' (Inr None) \<in> set evs' \<longrightarrow>
      resp = \<lparr>content_text = ''No accessibility tree available for this page.'', isError = False\<rparr>)"
proof -
  have 1: "takeSnapshot e pg b args = (r, evs) \<and> AccessibilitySnapshot pg (Inr None) \<in> set evs \<longrightarrow>
      r = Inr ''No accessibility tree available for this page.''"
    using takeSnapshot_retrieved [of e pg b args r evs pg "Inr None"] by simp
  have 2: "resp = \<lparr>content_text = ''No accessibility tree available for this page.'', isError = False\<rparr>"
    if c: "callTool e b0 tool jargs = Some (resp, b', evs')"
      and s: "AccessibilitySnapshot pg' (Inr None) \<in> set evs'"
    using c
  proof (cases rule: callTool_cases)
    case (not_connected err)
    from s have "AccessibilitySnapshot pg' (Inr None) \<in> set (filter page_event evs')" by simp
    with not_connected show ?thesis by simp
  next
    case (dispatched pg evs0 r evs1)
    from s have "AccessibilitySnapshot pg' (Inr None) \<in> set (filter page_event evs')" by simp
    with dispatched have "AccessibilitySnapshot pg' (Inr None) \<in> set evs1" by auto
    from dispatch_sentinel [OF dispatched(3) this] dispatched(4) show ?thesis by simp
  qed
  from 1 2 show ?thesis by blast
qed

theorem takeSnapshot_sentinel_witness:
  "AccessibilitySnapshot 1 (Inr None) \<in> set (snd (takeSnapshot no_tree_env 1 connected_browser no_args))
   \<and> fst (takeSnapshot no_tree_env 1 connected_browser no_args)
       = Inr ''No accessibility tree available for this page.''
   \<and> callTool no_tree_env fresh_browser ''take_snapshot'' None
       = Some (\<lparr>content_text = ''No accessibility tree available for this page.'', isError = False\<rparr>,
               connected_browser,
               [Launch True, NewPage 1, AccessibilitySnapshot 1 (Inr None)])"
proof -
  let ?r = "takeSnapshot no_tree_env 1 connected_browser no_args"
  have h1: "?r = (fst ?r, snd ?r)" by simp
  have h2: "AccessibilitySnapshot 1 (Inr None) \<in> set (snd ?r)"
    by (simp add: takeSnapshot_def no_tree_env_def example_env_def no_args_def)
  from takeSnapshot_sentinel [of no_tree_env 1 connected_browser no_args "fst ?r" "snd ?r"] h1 h2
  have 1: "fst ?r = Inr ''No accessibility tree available for this page.''"
    by blast
  have 2: "callTool no_tree_env fresh_browser ''take_snapshot'' None
       = Some (\<lparr>content_text = ''No accessibility tree available for this page.'', isError = False\<rparr>,
               connected_browser,
               [Launch True, NewPage 1, AccessibilitySnapshot 1 (Inr None)])"
    by (simp add: server_eval no_tree_env_def example_env_def fresh_browser_def
        connected_browser_def)
  from h2 1 2 show ?thesis by blast
qed

section \<open>Argument validation\<close>

lemma evaluateScriptSchema_accepts:
  "(\<exists>v. evaluateScriptSchema_parse e a = Inr v)
     \<longleftrightarrow> (\<exists>s. map_of a ''script'' = Some (JString s))
         \<and> (map_of a ''url'' = None \<or> (\<exists>u. map_of a ''url'' = Some (JString u) \<and> zod_url e u))"
proof -
  have s: "(\<exists>x. z_string ''script'' j = Inr x) = (\<exists>s. j = Some (JString s))" for j
    by (cases "(''script'', j)" rule: z_string.cases) auto
  have u: "(\<exists>x. z_optional (z_string_url e ''url'') j = Inr x)
             = (j = None \<or> (\<exists>u. j = Some (JString u) \<and> zod_url e u))" for j
    by (cases "(e, ''url'', j)" rule: z_string_url.cases) auto
  have "(\<exists>v. evaluateScriptSchema_parse e a = Inr v)
          = ((\<exists>x. z_string ''script'' (map_of a ''script'') = Inr x)
             \<and> (\<exists>x. z_optional (z_string_url e ''url'') (map_of a ''url'') = Inr x))"
    by (auto simp: evaluateScriptSchema_parse_def split: sum.splits)
  then show ?thesis by (simp only: s u)
qed

lemma evaluateScriptSchema_script:
  "evaluateScriptSchema_parse e a = Inr v \<Longrightarrow> map_of a ''script'' = Some (JString (script v))"
  by (cases "(''script'', map_of a ''script'')" rule: z_string.cases)
     (auto simp: evaluateScriptSchema_parse_def split: sum.splits)

lemma callTool_returns:
  "page b \<noteq> None \<or> \<not> connecting b \<Longrightarrow> callTool e b tool jargs \<noteq> None"
  by (auto simp: callTool_def ensureConnected_def isConnected_def connect_def Let_def
      split: option.splits sum.splits prod.splits)

lemma dispatch_invalid:
  "tool = ''take_snapshot'' \<and> takeSnapshotSchema_parse e (or_empty jargs) = Inl iss
   \<or> tool = ''evaluate_script'' \<and> evaluateScriptSchema_parse e (or_empty jargs) = Inl iss
   \<Longrightarrow> dispatch e pg b tool jargs = (Inl (Error (zod_message e iss)), [])"
  by (auto simp: dispatch_def)

text \<open>
  Claim C5, as stated, fails: the schema of \<open>evaluate_script\<close> is \<open>z.string()\<close> with no
  minimum length, so a call whose \<open>script\<close> is the empty string passes validation and the
  empty script is evaluated in the page.
\<close>

theorem evaluate_script_empty_counterexample:
  "evaluateScriptSchema_parse example_env [(''script'', JString [])]
     = Inr \<lparr>script = [], EvaluateScriptArgs.url = None\<rparr>
   \<and> callTool example_env connected_browser ''evaluate_script'' (Some [(''script'', JString [])])
       = Some (\<lparr>content_text = ''Script executed successfully:'' @ newline @ newline @ ''undefined'',
                isError = False\<rparr>,
               connected_browser, [PageEvaluate 1 []])"
  by (simp add: server_eval example_env_def connected_browser_def)

text \<open>
  Claim C5, amended. For every call to either tool the arguments are validated against the
  tool's schema before the handler runs: when validation fails, the call answers with the
  error flag and the handler has not touched the page, and when it succeeds the handler
  runs on the validated arguments. The schema of \<open>evaluate_script\<close> accepts the arguments
  exactly when \<open>script\<close> is present and a string (the empty string included) and \<open>url\<close>
  is absent or a string the URL check accepts. A call on a browser that is connected, or
  that no other call is connecting, returns.
\<close>

theorem callTool_validates:
  "(callTool e b tool jargs = Some (resp, b', evs)
      \<and> (tool = ''take_snapshot'' \<and> takeSnapshotSchema_parse e (or_empty jargs) = Inl iss
         \<or> tool = ''evaluate_script'' \<and> evaluateScriptSchema_parse e (or_empty jargs) = Inl iss)
     \<longrightarrow> isError resp \<and> filter page_event evs = [])
   \<and> (tool = ''take_snapshot'' \<and> takeSnapshotSchema_parse e (or_empty jargs) = Inl iss
         \<or> tool = ''evaluate_script'' \<and> evaluateScriptSchema_parse e (or_empty jargs) = Inl iss
     \<longrightarrow> dispatch e pg b tool jargs = (Inl (Error (zod_message e iss)), []))
   \<and> (takeSnapshotSchema_parse e (or_empty jargs) = Inr v1 \<longrightarrow>
        dispatch e pg b ''take_snapshot'' jargs = takeSnapshot e pg b v1)
   \<and> (evaluateScriptSchema_parse e (or_empty jargs) = Inr v2 \<longrightarrow>
        dispatch e pg b ''evaluate_script'' jargs = evaluateScript e pg b v2)
   \<and> ((\<exists>v. evaluateScriptSchema_parse e a = Inr v)
        \<longleftrightarrow> (\<exists>s. map_of a ''script'' = Some (JString s))
            \<and> (map_of a ''url'' = None \<or> (\<exists>u. map_of a ''url'' = Some (JString u) \<and> zod_url e u)))
   \<and> (evaluateScriptSchema_parse e a = Inr v2 \<longrightarrow> map_of a ''script'' = Some (JString (script v2)))
   \<and> (page b \<noteq> None \<or> \<not> connecting b \<longrightarrow> callTool e b tool jargs \<noteq> None)"
proof -
  have 1: "isError resp \<and> filter page_event evs = []"
    if c: "callTool e b tool jargs = Some (resp, b', evs)"
      and i: "tool = ''take_snapshot'' \<and> takeSnapshotSchema_parse e (or_empty jargs) = Inl iss
         \<or> tool = ''evaluate_script'' \<and> evaluateScriptSchema_parse e (or_empty jargs) = Inl iss"
    using c
  proof (cases rule: callTool_cases)
    case (not_connected err)
    then show ?thesis by (simp add: error_response_def)
  next
    case (dispatched pg' evs0 r evs1)
    with dispatch_invalid [OF i, of pg' b'] show ?thesis
      by (auto simp: error_response_def)
  qed
  have 3: "takeSnapshotSchema_parse e (or_empty jargs) = Inr v1 \<longrightarrow>
        dispatch e pg b ''take_snapshot'' jargs = takeSnapshot e pg b v1"
    by (simp add: dispatch_def)
  have 4: "evaluateScriptSchema_parse e (or_empty jargs) = Inr v2 \<longrightarrow>
        dispatch e pg b ''evaluate_script'' jargs = evaluateScript e pg b v2"
    by (simp add: dispatch_def)
  from 1 3 4 dispatch_invalid [of tool e jargs iss pg b] evaluateScriptSchema_accepts [of e a]
    evaluateScriptSchema_script [of e a v2] callTool_returns [of b e tool jargs]
  show ?thesis by blast
qed


theorem callTool_validates_witness:
  "evaluateScriptSchema_parse example_env (or_empty (Some [(''script'', JNumber 5)]))
     = Inl [InvalidType ''script'']
   \<and> page connected_browser \<noteq> None
   \<and> callTool example_env connected_browser ''evaluate_script'' (Some [(''script'', JNumber 5)])
       = Some (\<lparr>content_text = ''Error: Invalid arguments'', isError = True\<rparr>, connected_browser, [])
   \<and> isError (fst (the (callTool example_env connected_browser ''evaluate_script''
                          (Some [(''script'', JNumber 5)]))))"
proof -
  let ?bad = "Some [(''script'', JNumber 5)]"
  let ?res = "callTool example_env connected_browser ''evaluate_script'' ?bad"
  have p: "evaluateScriptSchema_parse example_env (or_empty ?bad) = Inl [InvalidType ''script'']"
    by (simp add: evaluateScriptSchema_parse_def or_empty_def)
  have h: "page connected_browser \<noteq> None"
    by (simp add: connected_browser_def)
  note th = callTool_validates [where e = example_env and b = connected_browser
      and tool = "''evaluate_script''" and jargs = ?bad and iss = "[InvalidType ''script'']"
      and resp = "fst (the ?res)" and b' = "fst (snd (the ?res))" and evs = "snd (snd (the ?res))"]
  note ret = th [THEN conjunct2, THEN conjunct2, THEN conjunct2, THEN conjunct2, THEN conjunct2,
      THEN conjunct2, THEN mp]
  from h have "?res \<noteq> None" by (intro ret disjI1)
  then have s: "?res = Some (fst (the ?res), fst (snd (the ?res)), snd (snd (the ?res)))"
    by (cases ?res) simp_all
  from p have "''evaluate_script'' = ''take_snapshot'' \<and>
       takeSnapshotSchema_parse example_env (or_empty ?bad) = Inl [InvalidType ''script'']
     \<or> ''evaluate_script'' = ''evaluate_script'' \<and>
       evaluateScriptSchema_parse example_env (or_empty ?bad) = Inl [InvalidType ''script'']"
    by (intro disjI2 conjI refl)
  with s have "isError (fst (the ?res)) \<and> filter page_event (snd (snd (the ?res))) = []"
    by (intro th [THEN conjunct1, THEN mp] conjI)
  then have e: "isError (fst (the ?res))" ..
  have c: "?res
       = Some (\<lparr>content_text = ''Error: Invalid arguments'', isError = True\<rparr>, connected_browser, [])"
    by (simp add: server_eval example_env_def connected_browser_def)
  from p h c e show ?thesis by blast
qed


end
